theory Spec2Isabelle
  imports Main "HOL-Library.Sublist" "HOL-Library.AList"
begin

section \<open>Strings, paths and the file system\<close>

text \<open>
  A Python \<open>str\<close> is modelled as a \<open>string\<close>, one \<open>char\<close> per code point, so the
  model covers the code points below 256. On these \<open>str.lower\<close> maps \<open>A..Z\<close> and the
  Latin-1 capitals \<open>U+00C0..U+00DE\<close> (without the multiplication sign \<open>U+00D7\<close>) to the
  code point 32 above, and leaves every other character alone.
\<close>

definition lower_char :: "char \<Rightarrow> char" where
  "lower_char c =
     (let n = (of_char c :: nat)
      in if (65 \<le> n \<and> n \<le> 90) \<or> (192 \<le> n \<and> n \<le> 222 \<and> n \<noteq> 215)
         then char_of (n + 32) else c)"

definition lower :: "string \<Rightarrow> string" where
  "lower s = map lower_char s"

text \<open>
  Python's \<open>a in b\<close> on strings is containment as a contiguous block, which is
  \<^const>\<open>sublist\<close> of the list library.
\<close>

definition startswith :: "string \<Rightarrow> char \<Rightarrow> bool" where
  "startswith s c = (case s of [] \<Rightarrow> False | d # _ \<Rightarrow> d = c)"

definition endswith :: "string \<Rightarrow> char \<Rightarrow> bool" where
  "endswith s c = (s \<noteq> [] \<and> last s = c)"

text \<open>\<open>os.path.join\<close> of two components, as \<open>posixpath\<close> computes it.\<close>

definition path_join :: "string \<Rightarrow> string \<Rightarrow> string" where
  "path_join a b =
     (if startswith b CHR ''/'' then b
      else if a = [] \<or> endswith a CHR ''/'' then a @ b
      else a @ ''/'' @ b)"

text \<open>
  The file system is read only through \<open>os.listdir\<close> and \<open>os.path.isdir\<close>. It is a
  function from a path, as the code spelled it, to the names listed under it; a path
  that is no directory has no listing, and \<open>os.listdir\<close> raises there.
\<close>

type_synonym filesystem = "string \<Rightarrow> string list option"

datatype error =
    OSError
  | IndexError
  | NameError
  | AttributeError
  | KeyError
  | StopIteration
  | Exception string

definition listdir :: "filesystem \<Rightarrow> string \<Rightarrow> error + string list" where
  "listdir fs p = (case fs p of None \<Rightarrow> Inl OSError | Some names \<Rightarrow> Inr names)"

definition isdir :: "filesystem \<Rightarrow> string \<Rightarrow> bool" where
  "isdir fs p = (fs p \<noteq> None)"

section \<open>File selection\<close>

text \<open>
  \<open>Patient._check_exception_words\<close>. The two diagnostic files are append-only and are
  never read back by the module; the lines written to them are left out of the model.
\<close>

fun check_exception_words :: "string \<Rightarrow> string list option \<Rightarrow> bool" where
  "check_exception_words file_name None = True"
| "check_exception_words file_name (Some []) = True"
| "check_exception_words file_name (Some (excp # rest)) =
     (if sublist excp file_name then False
      else check_exception_words file_name (Some rest))"

text \<open>
  \<open>Patient._select_files\<close>. Each of the two comprehensions lists the folder, and one of
  them always runs, so a folder that cannot be listed makes the call raise.
\<close>

definition select_files ::
  "filesystem \<Rightarrow> string \<Rightarrow> string \<Rightarrow> string \<Rightarrow> string list option \<Rightarrow> bool \<Rightarrow> bool
     \<Rightarrow> error + string list" where
  "select_files fs series_desc folder file_extension exceptions full_match try_full_match =
     (case listdir fs folder of
        Inl e \<Rightarrow> Inl e
      | Inr files \<Rightarrow>
          (let result = [];
               result =
                 (if full_match \<or> try_full_match
                  then map (path_join folder)
                         (filter (\<lambda>file. lower file = lower series_desc @ file_extension
                                     \<and> check_exception_words file exceptions) files)
                  else result);
               result =
                 (if (\<not> full_match \<and> try_full_match = False)
                       \<or> (try_full_match \<and> length result = 0)
                  then map (path_join folder)
                         (filter (\<lambda>file. sublist file_extension file
                                     \<and> check_exception_words file exceptions) files)
                  else result)
           in Inr result))"

text \<open>
  The selection policy in the words of the specification: the mode picks the
  candidates by name alone, and exception filtering is applied to the candidates
  afterwards.
\<close>

definition spec_exact_names :: "string \<Rightarrow> string \<Rightarrow> string list \<Rightarrow> string list" where
  "spec_exact_names series_desc file_extension files =
     filter (\<lambda>file. lower file = lower series_desc @ file_extension) files"

definition spec_permissive_names :: "string \<Rightarrow> string list \<Rightarrow> string list" where
  "spec_permissive_names file_extension files =
     filter (\<lambda>file. sublist file_extension file) files"

definition spec_try_full_match ::
  "string \<Rightarrow> string \<Rightarrow> string list option \<Rightarrow> string list \<Rightarrow> string list" where
  "spec_try_full_match series_desc file_extension exceptions files =
     filter (\<lambda>file. check_exception_words file exceptions)
       (if spec_exact_names series_desc file_extension files \<noteq> []
        then spec_exact_names series_desc file_extension files
        else spec_permissive_names file_extension files)"

text \<open>Example folders.\<close>

definition fs_no_exact :: filesystem where
  "fs_no_exact = (\<lambda>p. if p = ''/data/p1/ADC'' then Some [''other.nii.gz''] else None)"

definition fs_excluded_exact :: filesystem where
  "fs_excluded_exact =
     (\<lambda>p. if p = ''/data/p1/ADC'' then Some [''adc.nii.gz'', ''dwi.nii.gz''] else None)"

section \<open>Catalogue entries\<close>

text \<open>
  An instance of \<open>Series\<close> or of its subclass \<open>Mask\<close>. A series carries the path of one
  file; a mask is built with the list of the files selected in a doctor's folder
  as its \<open>path\<close>, and with the doctor's folder name.
\<close>

datatype entry =
    Series string string
  | Mask string "string list" "string option"

fun get_type :: "entry \<Rightarrow> string" where
  "get_type (Series series_type path) = series_type"
| "get_type (Mask series_type path doctor) = series_type"

text \<open>\<open>get_doctor\<close> is a method of \<open>Mask\<close> only.\<close>

fun get_doctor :: "entry \<Rightarrow> error + string option" where
  "get_doctor (Series series_type path) = Inl AttributeError"
| "get_doctor (Mask series_type path doctor) = Inr doctor"

text \<open>
  \<open>Patient._create_mask\<close> and \<open>Patient._create_series\<close>. Both are called with a string
  for \<open>series_desc\<close> and with a list (a string) for \<open>path\<close>, so of their tests the one
  for an empty \<open>path\<close> is left; \<open>None\<close> is the Python value returned there.
\<close>

definition create_mask :: "string \<Rightarrow> string list \<Rightarrow> string \<Rightarrow> entry option" where
  "create_mask series_desc path doctor =
     (if path = [] then None else Some (Mask series_desc path (Some doctor)))"

definition create_series :: "string \<Rightarrow> string \<Rightarrow> entry option" where
  "create_series series_desc path =
     (if path = [] then None else Some (Series series_desc path))"

section \<open>Discovery of one kind\<close>

text \<open>
  A \<open>Patient\<close> object: its identifier and its folder. The names of the two
  diagnostic files are left out with the files.
\<close>

record patient =
  patient_id :: string
  path :: string

text \<open>The loop of \<open>_fetch_single_series\<close> over the folders found.\<close>

fun select_in_folders ::
  "filesystem \<Rightarrow> string \<Rightarrow> string list \<Rightarrow> string \<Rightarrow> string list option \<Rightarrow> bool \<Rightarrow> bool
     \<Rightarrow> error + string list" where
  "select_in_folders fs series_desc [] file_extension exceptions full_match try_full_match =
     Inr []"
| "select_in_folders fs series_desc (folder # rest) file_extension exceptions full_match
       try_full_match =
     (case select_files fs series_desc folder file_extension exceptions full_match
             try_full_match of
        Inl e \<Rightarrow> Inl e
      | Inr files \<Rightarrow>
          (case select_in_folders fs series_desc rest file_extension exceptions full_match
                  try_full_match of
             Inl e \<Rightarrow> Inl e
           | Inr others \<Rightarrow> Inr (files @ others)))"

text \<open>
  \<open>Patient._fetch_single_series\<close>. With more than one folder found and \<open>warnings\<close> set,
  the code calls \<open>self.write_warning\<close>, a method the class does not have (its method is
  \<open>_write_warning\<close>), and the call raises \<open>AttributeError\<close>.
\<close>

definition fetch_single_series ::
  "filesystem \<Rightarrow> patient \<Rightarrow> string \<Rightarrow> string \<Rightarrow> bool \<Rightarrow> string list option \<Rightarrow> bool \<Rightarrow> bool
     \<Rightarrow> error + entry option list" where
  "fetch_single_series fs self series_desc file_extension warnings exceptions full_match
       try_full_match =
     (case listdir fs (path self) of
        Inl e \<Rightarrow> Inl e
      | Inr names \<Rightarrow>
          (let folder_list =
                 map (path_join (path self))
                   (filter (\<lambda>folder. sublist (lower series_desc) (lower folder)) names)
           in if length folder_list > 1 \<and> warnings then Inl AttributeError
              else
                (case select_in_folders fs series_desc folder_list file_extension exceptions
                        full_match try_full_match of
                   Inl e \<Rightarrow> Inl e
                 | Inr file_list \<Rightarrow> Inr (map (create_series series_desc) file_list))))"

text \<open>
  A Python \<open>dict\<close> with string keys is an association list in insertion order:
  \<^const>\<open>AList.update\<close> is item assignment (a key already present keeps its place),
  \<^const>\<open>map_of\<close> the lookup.
\<close>

type_synonym 'v dict = "(string \<times> 'v) list"

definition dict_from_keys :: "string list \<Rightarrow> 'v \<Rightarrow> 'v dict" where
  "dict_from_keys keys v = fold (\<lambda>k d. AList.update k v d) keys []"


text \<open>
  The loop of \<open>_fetch_single_mask\<close> over the doctors: \<open>file_dict[doctor] += ...\<close>. Every
  doctor is a key of \<open>file_dict\<close>, so the item is always found.
\<close>

fun select_per_doctor ::
  "filesystem \<Rightarrow> string \<Rightarrow> string \<Rightarrow> string list \<Rightarrow> string \<Rightarrow> string list option \<Rightarrow> bool
     \<Rightarrow> bool \<Rightarrow> string list dict \<Rightarrow> error + string list dict" where
  "select_per_doctor fs series_desc mask_folder_path [] file_extension exceptions full_match
       try_full_match file_dict = Inr file_dict"
| "select_per_doctor fs series_desc mask_folder_path (doctor # rest) file_extension exceptions
       full_match try_full_match file_dict =
     (let folder = path_join mask_folder_path doctor
      in case select_files fs series_desc folder file_extension exceptions full_match
                try_full_match of
           Inl e \<Rightarrow> Inl e
         | Inr files \<Rightarrow>
             select_per_doctor fs series_desc mask_folder_path rest file_extension exceptions
               full_match try_full_match
               (AList.map_entry doctor (\<lambda>found. found @ files) file_dict))"

text \<open>
  \<open>Patient._fetch_single_mask\<close>. The list \<open>masks_folder_list\<close> holds the joined path of
  every entry of the patient directory whose lower-case name contains \<open>masks\<close>, file
  or folder. With more than one, the message of the warning is built from
  \<open>len(mask_folder_list)\<close>, a name that is not bound (the list is
  \<open>masks_folder_list\<close>), and the f-string raises \<open>NameError\<close> before anything is
  written. With none, \<open>masks_folder_list[0]\<close> raises \<open>IndexError\<close>. The first path is
  joined to the patient path once more before it is listed. The result is a deep copy
  of the local \<open>masks_dict\<close>, that is a new value.
\<close>

definition fetch_single_mask ::
  "filesystem \<Rightarrow> patient \<Rightarrow> string \<Rightarrow> string \<Rightarrow> bool \<Rightarrow> string list option \<Rightarrow> bool \<Rightarrow> bool
     \<Rightarrow> error + entry option list dict" where
  "fetch_single_mask fs self series_desc file_extension warnings exceptions full_match
       try_full_match =
     (let mask_folder_name = ''masks''
      in case listdir fs (path self) of
           Inl e \<Rightarrow> Inl e
         | Inr names \<Rightarrow>
             (let masks_folder_list =
                    map (path_join (path self))
                      (filter (\<lambda>folder. sublist (lower mask_folder_name) (lower folder)) names)
              in if length masks_folder_list > 1 then Inl NameError
                 else
                   (case masks_folder_list of
                      [] \<Rightarrow> Inl IndexError
                    | first_folder # _ \<Rightarrow>
                        (let mask_folder_path = path_join (path self) first_folder
                         in case listdir fs mask_folder_path of
                              Inl e \<Rightarrow> Inl e
                            | Inr entries \<Rightarrow>
                                (let doctors_list =
                                       filter (\<lambda>folder. isdir fs (path_join mask_folder_path folder))
                                         entries
                                 in case select_per_doctor fs series_desc mask_folder_path
                                           doctors_list file_extension exceptions full_match
                                           try_full_match (dict_from_keys doctors_list []) of
                                      Inl e \<Rightarrow> Inl e
                                    | Inr file_dict \<Rightarrow>
                                        Inr (fold
                                               (\<lambda>(doctor, path) masks_dict.
                                                  AList.map_entry doctor
                                                    (\<lambda>masks. masks @ [create_mask series_desc path doctor])
                                                    masks_dict)
                                               file_dict (dict_from_keys doctors_list [])))))))"

text \<open>Example patients.\<close>

definition p1 :: patient where
  "p1 = \<lparr>patient_id = ''p1'', path = ''/data/p1''\<rparr>"

definition fs_scenario :: filesystem where
  "fs_scenario =
     (\<lambda>p. if p = ''/data/p1'' then Some [''ADC'', ''MASKS'']
          else if p = ''/data/p1/ADC'' then Some [''adc.nii.gz'', ''adc_extra.nii.gz'']
          else if p = ''/data/p1/MASKS'' then Some [''doctorA'']
          else if p = ''/data/p1/MASKS/doctorA'' then Some [''adc.nii.gz'']
          else None)"

definition fs_no_masks :: filesystem where
  "fs_no_masks =
     (\<lambda>p. if p = ''/data/p1'' then Some [''ADC'']
          else if p = ''/data/p1/ADC'' then Some [''adc.nii.gz'']
          else None)"


definition fs_two_masks :: filesystem where
  "fs_two_masks =
     (\<lambda>p. if p = ''/data/p1'' then Some [''ADC'', ''MASKS'', ''masks_old'']
          else if p = ''/data/p1/ADC'' then Some [''adc.nii.gz'']
          else if p = ''/data/p1/MASKS'' then Some [''doctorA'']
          else if p = ''/data/p1/MASKS/doctorA'' then Some [''adc.nii.gz'']
          else if p = ''/data/p1/masks_old'' then Some []
          else None)"

definition fs_two_files :: filesystem where
  "fs_two_files =
     (\<lambda>p. if p = ''/data/p1'' then Some [''MASKS'']
          else if p = ''/data/p1/MASKS'' then Some [''doctorA'', ''doctorB'', ''notes.txt'']
          else if p = ''/data/p1/MASKS/doctorA'' then Some [''adc.nii.gz'', ''ADC.nii.gz'']
          else if p = ''/data/p1/MASKS/doctorB'' then Some [''dwi.nii.gz'']
          else None)"

section \<open>Objects and class attributes\<close>

text \<open>
  \<open>images\<close> and \<open>masks\<close> are attributes of the class \<open>Patient\<close>, and \<open>patients\<close> is one of
  the class \<open>DatasetDiscover\<close>: each is bound once, when the class is created, to one
  \<open>dict\<close> object, and no method assigns \<open>self.images\<close>, \<open>self.masks\<close> or
  \<open>self.patients\<close>. So \<open>self.images[k] = v\<close> stores into the one \<open>dict\<close> of the class,
  whatever object \<open>self\<close> is.

  The objects live in a store that gives every object an address. There is one store
  for the \<open>Series\<close> and \<open>Mask\<close> instances, one for the lists of instances (an item is a
  reference or Python's \<open>None\<close>) and one for the dicts from strings to references;
  \<open>next_free\<close> is the first address that no object has been given yet. A \<open>Patient\<close>
  object is not changed once it is built and is kept as a value.
\<close>

type_synonym addr = nat

record heap =
  entry_at :: "addr \<Rightarrow> entry"
  list_at :: "addr \<Rightarrow> addr option list"
  dict_at :: "addr \<Rightarrow> addr dict"
  next_free :: addr
  DatasetDiscover_patients :: "patient dict"

definition Patient_images :: addr where
  "Patient_images = 0"

definition Patient_masks :: addr where
  "Patient_masks = 1"

text \<open>The store once the module is loaded: the two dicts of \<open>Patient\<close> exist and are empty.\<close>

definition module_loaded :: heap where
  "module_loaded =
     \<lparr>entry_at = (\<lambda>a. Series [] []), list_at = (\<lambda>a. []), dict_at = (\<lambda>a. []),
      next_free = 2, DatasetDiscover_patients = []\<rparr>"

text \<open>Building new objects from values.\<close>

definition new_entry :: "entry \<Rightarrow> heap \<Rightarrow> addr \<times> heap" where
  "new_entry e h =
     (next_free h,
      h\<lparr>entry_at := (entry_at h)(next_free h := e), next_free := Suc (next_free h)\<rparr>)"

fun new_entries :: "entry option list \<Rightarrow> heap \<Rightarrow> addr option list \<times> heap" where
  "new_entries [] h = ([], h)"
| "new_entries (None # es) h =
     (case new_entries es h of (refs, h1) \<Rightarrow> (None # refs, h1))"
| "new_entries (Some e # es) h =
     (case new_entry e h of (a, h1) \<Rightarrow>
        (case new_entries es h1 of (refs, h2) \<Rightarrow> (Some a # refs, h2)))"

definition new_list :: "entry option list \<Rightarrow> heap \<Rightarrow> addr \<times> heap" where
  "new_list es h =
     (case new_entries es h of (refs, h1) \<Rightarrow>
        (next_free h1,
         h1\<lparr>list_at := (list_at h1)(next_free h1 := refs), next_free := Suc (next_free h1)\<rparr>))"

fun new_lists :: "entry option list dict \<Rightarrow> heap \<Rightarrow> addr dict \<times> heap" where
  "new_lists [] h = ([], h)"
| "new_lists ((k, es) # rest) h =
     (case new_list es h of (a, h1) \<Rightarrow>
        (case new_lists rest h1 of (refs, h2) \<Rightarrow> ((k, a) # refs, h2)))"

definition new_dict :: "addr dict \<Rightarrow> heap \<Rightarrow> addr \<times> heap" where
  "new_dict d h =
     (next_free h,
      h\<lparr>dict_at := (dict_at h)(next_free h := d), next_free := Suc (next_free h)\<rparr>)"

definition new_doctor_dict :: "entry option list dict \<Rightarrow> heap \<Rightarrow> addr \<times> heap" where
  "new_doctor_dict v h = (case new_lists v h of (refs, h1) \<Rightarrow> new_dict refs h1)"

fun new_doctor_dicts :: "entry option list dict dict \<Rightarrow> heap \<Rightarrow> addr dict \<times> heap" where
  "new_doctor_dicts [] h = ([], h)"
| "new_doctor_dicts ((k, v) # rest) h =
     (case new_doctor_dict v h of (a, h1) \<Rightarrow>
        (case new_doctor_dicts rest h1 of (refs, h2) \<Rightarrow> ((k, a) # refs, h2)))"

definition new_masks_dict :: "entry option list dict dict \<Rightarrow> heap \<Rightarrow> addr \<times> heap" where
  "new_masks_dict v h = (case new_doctor_dicts v h of (refs, h1) \<Rightarrow> new_dict refs h1)"

text \<open>Reading the objects under a list, a dict of lists and a dict of dicts of lists.\<close>

definition read_list :: "heap \<Rightarrow> addr \<Rightarrow> entry option list" where
  "read_list h l = map (map_option (entry_at h)) (list_at h l)"

definition read_lists :: "heap \<Rightarrow> addr \<Rightarrow> entry option list dict" where
  "read_lists h d = map (\<lambda>(k, l). (k, read_list h l)) (dict_at h d)"

definition read_masks :: "heap \<Rightarrow> addr \<Rightarrow> entry option list dict dict" where
  "read_masks h m = map (\<lambda>(k, d). (k, read_lists h d)) (dict_at h m)"

text \<open>
  \<open>copy.deepcopy\<close> of a dict of dicts of lists of instances: every object under it is
  built anew.
\<close>

definition deepcopy_masks :: "heap \<Rightarrow> addr \<Rightarrow> addr \<times> heap" where
  "deepcopy_masks h m = new_masks_dict (read_masks h m) h"

section \<open>Discovery and queries of a patient\<close>

text \<open>
  The keyword arguments that \<open>fetch_masks\<close> and \<open>fetch_series\<close> pass on, each with the
  default of \<open>_fetch_single_mask\<close> and \<open>_fetch_single_series\<close> where a dict of the
  module leaves it out.
\<close>

record kwargs =
  warnings :: bool
  exceptions :: "string list option"
  full_match :: bool
  try_full_match :: bool

definition series_to_fetch :: "string list" where
  "series_to_fetch = [''adc'', ''dwi'']"

definition mask_config :: kwargs where
  "mask_config =
     \<lparr>warnings = True, exceptions = None, full_match = True, try_full_match = False\<rparr>"

definition series_config :: kwargs where
  "series_config =
     \<lparr>warnings = True, exceptions = None, full_match = False, try_full_match = True\<rparr>"

text \<open>
  A method that can raise returns its outcome together with the store it leaves: what
  was stored before the exception stays stored.
\<close>

fun fetch_masks_loop ::
  "filesystem \<Rightarrow> patient \<Rightarrow> string list \<Rightarrow> string \<Rightarrow> kwargs \<Rightarrow> heap \<Rightarrow> (error + unit) \<times> heap"
  where
  "fetch_masks_loop fs self [] file_extension kw h = (Inr (), h)"
| "fetch_masks_loop fs self (ser_desc # rest) file_extension kw h =
     (case fetch_single_mask fs self ser_desc file_extension (warnings kw) (exceptions kw)
             (full_match kw) (try_full_match kw) of
        Inl e \<Rightarrow> (Inl e, h)
      | Inr masks_dict \<Rightarrow>
          (case new_doctor_dict masks_dict h of (a, h1) \<Rightarrow>
             fetch_masks_loop fs self rest file_extension kw
               (h1\<lparr>dict_at := (dict_at h1)
                  (Patient_masks := AList.update ser_desc a (dict_at h1 Patient_masks))\<rparr>)))"

text \<open>\<open>Patient.fetch_masks\<close> returns a deep copy of \<open>self.masks\<close>.\<close>

definition fetch_masks ::
  "filesystem \<Rightarrow> patient \<Rightarrow> string list \<Rightarrow> string \<Rightarrow> kwargs \<Rightarrow> heap \<Rightarrow> (error + addr) \<times> heap"
  where
  "fetch_masks fs self series_list file_extension kw h =
     (case fetch_masks_loop fs self series_list file_extension kw h of
        (Inl e, h1) \<Rightarrow> (Inl e, h1)
      | (Inr u, h1) \<Rightarrow> (case deepcopy_masks h1 Patient_masks of (r, h2) \<Rightarrow> (Inr r, h2)))"

fun fetch_series_loop ::
  "filesystem \<Rightarrow> patient \<Rightarrow> string list \<Rightarrow> string \<Rightarrow> kwargs \<Rightarrow> heap \<Rightarrow> (error + unit) \<times> heap"
  where
  "fetch_series_loop fs self [] file_extension kw h = (Inr (), h)"
| "fetch_series_loop fs self (ser_desc # rest) file_extension kw h =
     (case fetch_single_series fs self ser_desc file_extension (warnings kw) (exceptions kw)
             (full_match kw) (try_full_match kw) of
        Inl e \<Rightarrow> (Inl e, h)
      | Inr series_list \<Rightarrow>
          (case new_list series_list h of (a, h1) \<Rightarrow>
             fetch_series_loop fs self rest file_extension kw
               (h1\<lparr>dict_at := (dict_at h1)
                  (Patient_images := AList.update ser_desc a (dict_at h1 Patient_images))\<rparr>)))"

text \<open>\<open>Patient.fetch_series\<close> returns \<open>self.images\<close>, the dict of the class itself.\<close>

definition fetch_series ::
  "filesystem \<Rightarrow> patient \<Rightarrow> string list \<Rightarrow> string \<Rightarrow> kwargs \<Rightarrow> heap \<Rightarrow> (error + addr) \<times> heap"
  where
  "fetch_series fs self series_list file_extension kw h =
     (case fetch_series_loop fs self series_list file_extension kw h of
        (Inl e, h1) \<Rightarrow> (Inl e, h1)
      | (Inr u, h1) \<Rightarrow> (Inr Patient_images, h1))"

text \<open>
  \<open>Patient.fetch_all\<close>; the dict it returns has the two keys \<open>masks\<close> and \<open>series\<close> and is
  given as the pair of their values.
\<close>

definition fetch_all ::
  "filesystem \<Rightarrow> patient \<Rightarrow> string list \<Rightarrow> kwargs \<Rightarrow> kwargs \<Rightarrow> heap
     \<Rightarrow> (error + addr \<times> addr) \<times> heap" where
  "fetch_all fs self series_list mask_cfg series_cfg h =
     (case fetch_masks fs self series_list ''.nii.gz'' mask_cfg h of
        (Inl e, h1) \<Rightarrow> (Inl e, h1)
      | (Inr masks, h1) \<Rightarrow>
          (case fetch_series fs self series_list ''.nii.gz'' series_cfg h1 of
             (Inl e, h2) \<Rightarrow> (Inl e, h2)
           | (Inr series, h2) \<Rightarrow> (Inr (masks, series), h2)))"

text \<open>\<open>count[key] += 1\<close>.\<close>

definition incr :: "int dict \<Rightarrow> string \<Rightarrow> error + int dict" where
  "incr count k =
     (case map_of count k of
        None \<Rightarrow> Inl KeyError
      | Some n \<Rightarrow> Inr (AList.update k (n + 1) count))"

text \<open>The instances that are not \<open>None\<close>, in the order of the loops over an index.\<close>

definition present :: "entry option list \<Rightarrow> entry list" where
  "present items = concat (map (\<lambda>item. case item of None \<Rightarrow> [] | Some e \<Rightarrow> [e]) items)"

definition series_walk :: "entry option list dict \<Rightarrow> entry list" where
  "series_walk images = concat (map (\<lambda>(series_type, series_list). present series_list) images)"

definition masks_walk :: "entry option list dict dict \<Rightarrow> entry list" where
  "masks_walk masks = concat (map (\<lambda>(mask_type, doctor_dict). series_walk doctor_dict) masks)"

text \<open>
  The loops of \<open>Patient.count_masks_per\<close>, over the masks that are not \<open>None\<close>;
  \<open>msk\<close> is the \<open>mask\<close> of the innermost loop. A mask without doctor has the key
  \<open>None\<close>, which is not in \<open>count\<close>: its keys are strings.
\<close>

fun count_masks_loop :: "string \<Rightarrow> int dict \<Rightarrow> entry list \<Rightarrow> error + int dict" where
  "count_masks_loop count_type count [] = Inr count"
| "count_masks_loop count_type count (msk # rest) =
     (if lower count_type = ''series_type''
      then (case incr count (get_type msk) of
              Inl e \<Rightarrow> Inl e
            | Inr count1 \<Rightarrow> count_masks_loop count_type count1 rest)
      else if lower count_type = ''doctor''
      then (case get_doctor msk of
              Inl e \<Rightarrow> Inl e
            | Inr None \<Rightarrow> Inl KeyError
            | Inr (Some doctor) \<Rightarrow>
                (case incr count doctor of
                   Inl e \<Rightarrow> Inl e
                 | Inr count1 \<Rightarrow> count_masks_loop count_type count1 rest))
      else count_masks_loop count_type count rest)"

text \<open>
  \<open>Patient.count_masks_per\<close>: the part after the call of \<open>fetch_all\<close>, and the method.
\<close>

definition count_masks :: "string \<Rightarrow> heap \<Rightarrow> error + int dict" where
  "count_masks count_type h =
     (let masks = read_masks h Patient_masks
      in if lower count_type = ''series_type''
         then count_masks_loop count_type (dict_from_keys (map fst masks) 0) (masks_walk masks)
         else if lower count_type = ''doctor''
         then (case masks of
                 [] \<Rightarrow> Inl StopIteration
               | (mask_type, doctor_dict) # others \<Rightarrow>
                   count_masks_loop count_type (dict_from_keys (map fst doctor_dict) 0)
                     (masks_walk masks))
         else Inl (Exception ''Invalid count_type''))"

definition count_masks_per ::
  "filesystem \<Rightarrow> patient \<Rightarrow> string \<Rightarrow> heap \<Rightarrow> (error + int dict) \<times> heap" where
  "count_masks_per fs self count_type h =
     (case fetch_all fs self series_to_fetch mask_config series_config h of
        (Inl e, h1) \<Rightarrow> (Inl e, h1)
      | (Inr data, h1) \<Rightarrow> (count_masks count_type h1, h1))"

text \<open>\<open>Patient.count_series_per_type\<close>, in the same two parts.\<close>

fun count_series_loop :: "int dict \<Rightarrow> entry list \<Rightarrow> error + int dict" where
  "count_series_loop count [] = Inr count"
| "count_series_loop count (series # rest) =
     (case incr count (get_type series) of
        Inl e \<Rightarrow> Inl e
      | Inr count1 \<Rightarrow> count_series_loop count1 rest)"

definition count_series :: "heap \<Rightarrow> error + int dict" where
  "count_series h =
     (let images = read_lists h Patient_images
      in count_series_loop (dict_from_keys (map fst images) 0) (series_walk images))"

definition count_series_per_type ::
  "filesystem \<Rightarrow> patient \<Rightarrow> heap \<Rightarrow> (error + int dict) \<times> heap" where
  "count_series_per_type fs self h =
     (case fetch_all fs self series_to_fetch mask_config series_config h of
        (Inl e, h1) \<Rightarrow> (Inl e, h1)
      | (Inr data, h1) \<Rightarrow> (count_series h1, h1))"




text \<open>
  \<open>Patient.get_series_types\<close> reads \<open>self.images\<close> as it is; an item \<open>None\<close> of a list has
  no method \<open>get_type\<close>.
\<close>

fun types_of :: "entry option list \<Rightarrow> error + string list" where
  "types_of [] = Inr []"
| "types_of (None # rest) = Inl AttributeError"
| "types_of (Some series # rest) =
     (case types_of rest of Inl e \<Rightarrow> Inl e | Inr ts \<Rightarrow> Inr (get_type series # ts))"

definition get_series_types :: "patient \<Rightarrow> heap \<Rightarrow> error + string set" where
  "get_series_types self h =
     (case types_of (concat (map snd (read_lists h Patient_images))) of
        Inl e \<Rightarrow> Inl e
      | Inr series_type_list \<Rightarrow> Inr (set series_type_list))"

section \<open>The catalogue of patients\<close>

text \<open>
  \<open>DatasetDiscover.fetch_patients\<close>: the loop over the identifiers (\<open>pid\<close> is the
  \<open>patient_id\<close> of the loop). The dict returned is \<open>self.patients\<close>, the field of the
  store.
\<close>

fun fetch_patients :: "filesystem \<Rightarrow> string \<Rightarrow> string list \<Rightarrow> heap \<Rightarrow> heap" where
  "fetch_patients fs root [] h = h"
| "fetch_patients fs root (pid # rest) h =
     (let patient_path = path_join root pid
      in if \<not> isdir fs patient_path then fetch_patients fs root rest h
         else fetch_patients fs root rest
                (h\<lparr>DatasetDiscover_patients :=
                     AList.update pid \<lparr>patient_id = pid, path = patient_path\<rparr>
                       (DatasetDiscover_patients h)\<rparr>))"

text \<open>Example data.\<close>

definition no_flags :: kwargs where
  "no_flags =
     \<lparr>warnings = True, exceptions = None, full_match = False, try_full_match = False\<rparr>"

definition p2 :: patient where
  "p2 = \<lparr>patient_id = ''p2'', path = ''/data/p2''\<rparr>"

definition fs_two_patients :: filesystem where
  "fs_two_patients =
     (\<lambda>p. if p = ''/data'' then Some [''p1'', ''p2'']
          else if p = ''/data/p1'' then Some [''ADC'', ''MASKS'']
          else if p = ''/data/p1/ADC'' then Some [''adc.nii.gz'']
          else if p = ''/data/p1/MASKS'' then Some [''doctorA'']
          else if p = ''/data/p1/MASKS/doctorA'' then Some [''adc.nii.gz'']
          else if p = ''/data/p2'' then Some [''MASKS'']
          else if p = ''/data/p2/MASKS'' then Some []
          else None)"

section \<open>The objects under an index\<close>

text \<open>
  Notions for statements about copies and shared dicts. A list object lies within
  a range of addresses when it and the instances it refers to have their addresses
  there; likewise a dict of lists, and a dict of dicts of lists.
\<close>

definition list_within :: "heap \<Rightarrow> addr \<Rightarrow> addr \<Rightarrow> addr \<Rightarrow> bool" where
  "list_within h l lo hi =
     (lo \<le> l \<and> l < hi \<and> (\<forall>r. Some r \<in> set (list_at h l) \<longrightarrow> lo \<le> r \<and> r < hi))"

definition lists_within :: "heap \<Rightarrow> addr \<Rightarrow> addr \<Rightarrow> addr \<Rightarrow> bool" where
  "lists_within h d lo hi =
     (lo \<le> d \<and> d < hi \<and> (\<forall>l \<in> snd ` set (dict_at h d). list_within h l lo hi))"

definition masks_within :: "heap \<Rightarrow> addr \<Rightarrow> addr \<Rightarrow> addr \<Rightarrow> bool" where
  "masks_within h m lo hi =
     (lo \<le> m \<and> m < hi \<and> (\<forall>d \<in> snd ` set (dict_at h m). lists_within h d lo hi))"

text \<open>
  Two stores agree on a range of addresses; a store extends another when it has the
  same objects below the other's \<open>next_free\<close>, and grows from it when that holds from
  address 2 on, that is for every object but the two dicts of the class \<open>Patient\<close>.
\<close>

definition agree_on :: "heap \<Rightarrow> heap \<Rightarrow> addr \<Rightarrow> addr \<Rightarrow> bool" where
  "agree_on h h' lo hi =
     (\<forall>a. lo \<le> a \<and> a < hi \<longrightarrow>
        entry_at h' a = entry_at h a \<and> list_at h' a = list_at h a \<and> dict_at h' a = dict_at h a)"

definition extends :: "heap \<Rightarrow> heap \<Rightarrow> bool" where
  "extends h h' =
     (next_free h \<le> next_free h' \<and> agree_on h h' 0 (next_free h)
      \<and> DatasetDiscover_patients h' = DatasetDiscover_patients h)"

definition grows :: "heap \<Rightarrow> heap \<Rightarrow> bool" where
  "grows h h' = (next_free h \<le> next_free h' \<and> agree_on h h' 2 (next_free h))"

text \<open>
  The mask index is in order when the two dicts of the class have been given their
  addresses and each object under \<open>Patient.masks\<close> is an object of its own, built
  before \<open>next_free\<close>.
\<close>

definition masks_ok :: "heap \<Rightarrow> bool" where
  "masks_ok h =
     (2 \<le> next_free h
      \<and> (\<forall>d \<in> snd ` set (dict_at h Patient_masks). lists_within h d 2 (next_free h)))"

text \<open>
  The dicts, the lists and the instances under a dict of dicts of lists, and the
  stores that differ from a given one at most in these objects and in objects built
  later: what mutating the object graph under \<open>r\<close> can lead to.
\<close>

definition dicts_under :: "heap \<Rightarrow> addr \<Rightarrow> addr set" where
  "dicts_under h r = insert r (snd ` set (dict_at h r))"

definition lists_under :: "heap \<Rightarrow> addr \<Rightarrow> addr set" where
  "lists_under h r = (\<Union>d \<in> snd ` set (dict_at h r). snd ` set (dict_at h d))"

definition entries_under :: "heap \<Rightarrow> addr \<Rightarrow> addr set" where
  "entries_under h r = (\<Union>l \<in> lists_under h r. {a. Some a \<in> set (list_at h l)})"

definition changed_only_under :: "heap \<Rightarrow> heap \<Rightarrow> addr \<Rightarrow> bool" where
  "changed_only_under h h' r =
     (\<forall>a < next_free h.
        (a \<notin> dicts_under h r \<longrightarrow> dict_at h' a = dict_at h a)
        \<and> (a \<notin> lists_under h r \<longrightarrow> list_at h' a = list_at h a)
        \<and> (a \<notin> entries_under h r \<longrightarrow> entry_at h' a = entry_at h a))"

section \<open>Evaluation rules\<close>

lemma eq_char_of_iff: "c = char_of (n::nat) \<longleftrightarrow> take_bit 8 n = of_char c"
  using char_of_eq_iff [of n c] by auto

lemmas str_eval =
  lower_def lower_char_def char_of_eq_iff eq_char_of_iff sublist_Cons_right
  startswith_def endswith_def path_join_def

lemmas fetch_eval =
  fetch_single_mask_def fetch_single_series_def select_files_def listdir_def isdir_def
  dict_from_keys_def create_mask_def create_series_def

lemmas heap_eval =
  new_entry_def new_list_def new_dict_def new_doctor_dict_def new_masks_dict_def
  read_list_def read_lists_def read_masks_def deepcopy_masks_def
  fetch_masks_def fetch_series_def fetch_all_def Patient_images_def Patient_masks_def
  module_loaded_def series_to_fetch_def mask_config_def series_config_def no_flags_def

lemmas count_eval =
  count_masks_per_def count_masks_def count_series_per_type_def count_series_def
  incr_def present_def series_walk_def masks_walk_def get_series_types_def

section \<open>File selection: lemmas and claims\<close>

lemma check_exception_words_append:
  "check_exception_words f (Some (e1 @ e2)) =
     (check_exception_words f (Some e1) \<and> check_exception_words f (Some e2))"
  by (induction e1) auto

lemma check_exception_words_iff:
  "check_exception_words f (Some es) = (\<forall>e \<in> set es. \<not> sublist e f)"
  by (induction es) auto

lemma select_files_full_match_only:
  assumes "fs folder = Some files"
  shows "select_files fs series_desc folder file_extension excs True False =
           Inr (map (path_join folder)
                  (filter (\<lambda>file. lower file = lower series_desc @ file_extension
                              \<and> check_exception_words file excs) files))"
  using assms by (simp add: select_files_def listdir_def)

text \<open>
  C1. With \<open>full_match\<close> set, selection is said to return the exact matches only, with no
  fallback to the extension rule whatever \<open>try_full_match\<close> is. The docstring of
  \<open>_select_files\<close> says the same: with \<open>full_match\<close> given, \<open>try_full_match\<close> is not
  used. The second condition of the function tests \<open>try_full_match\<close> without looking at
  \<open>full_match\<close>: with both flags set and no exact match in the folder, the file
  \<open>other.nii.gz\<close> is returned for the series \<open>adc\<close>.
\<close>

theorem select_files_full_match_falls_back:
  "select_files fs_no_exact ''adc'' ''/data/p1/ADC'' ''.nii.gz'' None True True
     = Inr [''/data/p1/ADC/other.nii.gz'']"
  by (simp add: select_files_def listdir_def fs_no_exact_def str_eval)

text \<open>
  C2, as stated: with \<open>try_full_match\<close> alone, the exact matches are returned when at
  least one file has the exact name, and the files containing the extension
  otherwise, exception filtering applied to either. In the folder with \<open>adc.nii.gz\<close>
  and \<open>dwi.nii.gz\<close> and the exception word \<open>adc\<close>, an exact match exists and is
  excluded; the code then falls back and returns \<open>dwi.nii.gz\<close>.
\<close>

theorem select_files_try_full_match_counterexample:
  "spec_exact_names ''adc'' ''.nii.gz'' [''adc.nii.gz'', ''dwi.nii.gz''] = [''adc.nii.gz'']
   \<and> select_files fs_excluded_exact ''adc'' ''/data/p1/ADC'' ''.nii.gz'' (Some [''adc'']) False True
       = Inr [''/data/p1/ADC/dwi.nii.gz'']
   \<and> select_files fs_excluded_exact ''adc'' ''/data/p1/ADC'' ''.nii.gz'' (Some [''adc'']) False True
       \<noteq> Inr (map (path_join ''/data/p1/ADC'')
                (spec_try_full_match ''adc'' ''.nii.gz'' (Some [''adc''])
                   [''adc.nii.gz'', ''dwi.nii.gz'']))"
  by (simp add: select_files_def listdir_def fs_excluded_exact_def spec_try_full_match_def
      spec_exact_names_def spec_permissive_names_def str_eval)

text \<open>
  C2, amended: with \<open>try_full_match\<close> alone, selection returns the exact matches that
  pass the exception filter when there is at least one of them, and otherwise (no exact
  name, or every exact match excluded) the files that contain the extension and pass
  the exception filter.
\<close>

theorem select_files_try_full_match:
  assumes "fs folder = Some files"
  shows "select_files fs series_desc folder file_extension excs False True =
           Inr (map (path_join folder)
             (if filter (\<lambda>file. check_exception_words file excs)
                   (spec_exact_names series_desc file_extension files) \<noteq> []
              then filter (\<lambda>file. check_exception_words file excs)
                     (spec_exact_names series_desc file_extension files)
              else filter (\<lambda>file. check_exception_words file excs)
                     (spec_permissive_names file_extension files)))"
  using assms
  by (simp add: select_files_def listdir_def spec_exact_names_def spec_permissive_names_def
      conj_commute)

theorem select_files_try_full_match_witness:
  "fs_excluded_exact ''/data/p1/ADC'' = Some [''adc.nii.gz'', ''dwi.nii.gz'']
   \<and> select_files fs_excluded_exact ''dwi'' ''/data/p1/ADC'' ''.nii.gz'' (Some [''adc'']) False True
       = Inr [''/data/p1/ADC/dwi.nii.gz'']"
proof -
  have h: "fs_excluded_exact ''/data/p1/ADC'' = Some [''adc.nii.gz'', ''dwi.nii.gz'']"
    by (simp add: fs_excluded_exact_def)
  show ?thesis
    using h select_files_try_full_match
      [of fs_excluded_exact "''/data/p1/ADC''" "[''adc.nii.gz'', ''dwi.nii.gz'']"
          "''dwi''" "''.nii.gz''" "Some [''adc'']"]
    by (simp add: spec_exact_names_def spec_permissive_names_def str_eval)
qed

text \<open>
  C8. Exception filtering composes and is idempotent: filtering a list of file names by
  \<open>bad\<close> and the result by \<open>worse\<close> leaves the names that filtering once by both words
  leaves; the same holds for any two word lists, the outcome depends on the set of
  words only, and filtering a second time with the same words changes nothing.
\<close>

theorem exception_filtering_idempotent_order_independent:
  "filter (\<lambda>f. check_exception_words f (Some [''worse'']))
      (filter (\<lambda>f. check_exception_words f (Some [''bad''])) files)
     = filter (\<lambda>f. check_exception_words f (Some [''bad'', ''worse''])) files
   \<and> filter (\<lambda>f. check_exception_words f (Some vs))
        (filter (\<lambda>f. check_exception_words f (Some ws)) files)
     = filter (\<lambda>f. check_exception_words f (Some (ws @ vs))) files
   \<and> filter (\<lambda>f. check_exception_words f (Some (ws @ vs))) files
     = filter (\<lambda>f. check_exception_words f (Some (vs @ ws))) files
   \<and> (set ws = set vs \<longrightarrow>
        filter (\<lambda>f. check_exception_words f (Some ws)) files
        = filter (\<lambda>f. check_exception_words f (Some vs)) files)
   \<and> filter (\<lambda>f. check_exception_words f excs)
        (filter (\<lambda>f. check_exception_words f excs) files)
     = filter (\<lambda>f. check_exception_words f excs) files"
proof -
  have two: "\<And>a b. filter (\<lambda>f. check_exception_words f (Some b))
        (filter (\<lambda>f. check_exception_words f (Some a)) files)
     = filter (\<lambda>f. check_exception_words f (Some (a @ b))) files"
    by (simp add: check_exception_words_append conj_commute)
  have first: "filter (\<lambda>f. check_exception_words f (Some [''worse'']))
      (filter (\<lambda>f. check_exception_words f (Some [''bad''])) files)
     = filter (\<lambda>f. check_exception_words f (Some [''bad'', ''worse''])) files"
  proof -
    have e: "[''bad'', ''worse''] = [''bad''] @ [''worse'']" by simp
    show ?thesis by (subst e) (rule two)
  qed
  have swap: "filter (\<lambda>f. check_exception_words f (Some (ws @ vs))) files
     = filter (\<lambda>f. check_exception_words f (Some (vs @ ws))) files"
    by (simp add: check_exception_words_append conj_commute)
  have sets: "set ws = set vs \<longrightarrow>
        filter (\<lambda>f. check_exception_words f (Some ws)) files
        = filter (\<lambda>f. check_exception_words f (Some vs)) files"
    by (simp add: check_exception_words_iff)
  have idem: "filter (\<lambda>f. check_exception_words f excs)
        (filter (\<lambda>f. check_exception_words f excs) files)
     = filter (\<lambda>f. check_exception_words f excs) files"
    by simp
  from first two swap sets idem show ?thesis by blast
qed

theorem exception_filtering_witness:
  "set [''bad'', ''worse''] = set [''worse'', ''bad'', ''bad'']
   \<and> filter (\<lambda>f. check_exception_words f (Some [''bad'', ''worse'']))
        [''adc.nii.gz'', ''adc_bad.nii.gz'', ''worse_adc.nii.gz'']
     = filter (\<lambda>f. check_exception_words f (Some [''worse'', ''bad'', ''bad'']))
        [''adc.nii.gz'', ''adc_bad.nii.gz'', ''worse_adc.nii.gz'']"
proof -
  have h: "set [''bad'', ''worse''] = set [''worse'', ''bad'', ''bad'']"
    by auto
  from exception_filtering_idempotent_order_independent
    [where files = "[''adc.nii.gz'', ''adc_bad.nii.gz'', ''worse_adc.nii.gz'']"
       and ws = "[''bad'', ''worse'']" and vs = "[''worse'', ''bad'', ''bad'']"]
  have "set [''bad'', ''worse''] = set [''worse'', ''bad'', ''bad''] \<longrightarrow>
        filter (\<lambda>f. check_exception_words f (Some [''bad'', ''worse'']))
          [''adc.nii.gz'', ''adc_bad.nii.gz'', ''worse_adc.nii.gz'']
        = filter (\<lambda>f. check_exception_words f (Some [''worse'', ''bad'', ''bad'']))
          [''adc.nii.gz'', ''adc_bad.nii.gz'', ''worse_adc.nii.gz'']"
    by blast
  with h show ?thesis by blast
qed


section \<open>Discovery of one kind: lemmas and claims\<close>

lemma select_files_Inr:
  "fs folder \<noteq> None \<Longrightarrow> \<exists>files. select_files fs sd folder ext excs fm tfm = Inr files"
  by (auto simp: select_files_def listdir_def Let_def)


lemma select_in_folders_Inr:
  "\<forall>folder \<in> set folders. fs folder \<noteq> None \<Longrightarrow>
   \<exists>files. select_in_folders fs sd folders ext excs fm tfm = Inr files"
proof (induction folders)
  case Nil
  then show ?case by simp
next
  case (Cons folder folders)
  then obtain files others where
    "select_files fs sd folder ext excs fm tfm = Inr files"
    "select_in_folders fs sd folders ext excs fm tfm = Inr others"
    using select_files_Inr [of fs folder sd ext excs fm tfm] by auto
  then show ?case by simp
qed















text \<open>
  C5. With more than one masks folder, mask discovery is said to warn, to take the first
  folder and to return a result. The code means to do so (the comment says the first
  folder is always taken), but the message of the warning names \<open>mask_folder_list\<close>,
  which is not defined: with the folders \<open>MASKS\<close> and \<open>masks_old\<close> the call raises
  \<open>NameError\<close> and returns nothing.
\<close>

theorem two_masks_folders_raise:
  "fetch_single_mask fs_two_masks p1 ''adc'' ''.nii.gz'' True None True False = Inl NameError"
  by (simp add: fs_two_masks_def p1_def fetch_eval str_eval)

text \<open>
  C6. Mask discovery is said to build one entry per resolved file. The loop that
  creates the masks runs over the doctors and hands \<open>_create_mask\<close> the whole list of a
  doctor's files, where the loop of \<open>_fetch_single_series\<close> creates one series per
  file: doctor A, with two files resolved, gets one mask that holds both paths, and
  doctor B, with none, gets the one item \<open>None\<close>.
\<close>

theorem one_mask_per_doctor_not_per_file:
  "fetch_single_mask fs_two_files p1 ''adc'' ''.nii.gz'' True None True False
     = Inr [(''doctorA'',
             [Some (Mask ''adc''
                [''/data/p1/MASKS/doctorA/adc.nii.gz'', ''/data/p1/MASKS/doctorA/ADC.nii.gz'']
                (Some ''doctorA''))]),
            (''doctorB'', [None])]"
  by (simp add: fs_two_files_def p1_def fetch_eval str_eval)

section \<open>Allocation and frames\<close>

lemma extends_refl: "extends h h"
  by (simp add: extends_def agree_on_def)

lemma extends_trans: "extends h1 h2 \<Longrightarrow> extends h2 h3 \<Longrightarrow> extends h1 h3"
  by (auto simp: extends_def agree_on_def)

lemma agree_on_sub: "agree_on h h' lo hi \<Longrightarrow> lo \<le> lo' \<Longrightarrow> hi' \<le> hi \<Longrightarrow> agree_on h h' lo' hi'"
  by (auto simp: agree_on_def)

lemma list_within_mono:
  "list_within h l lo hi \<Longrightarrow> lo' \<le> lo \<Longrightarrow> hi \<le> hi' \<Longrightarrow> list_within h l lo' hi'"
  by (fastforce simp: list_within_def)

lemma lists_within_mono:
  "lists_within h d lo hi \<Longrightarrow> lo' \<le> lo \<Longrightarrow> hi \<le> hi' \<Longrightarrow> lists_within h d lo' hi'"
  by (fastforce simp: lists_within_def intro: list_within_mono)

lemma masks_within_mono:
  "masks_within h m lo hi \<Longrightarrow> lo' \<le> lo \<Longrightarrow> hi \<le> hi' \<Longrightarrow> masks_within h m lo' hi'"
  by (fastforce simp: masks_within_def intro: lists_within_mono)

lemma list_within_agree:
  "list_within h l lo hi \<Longrightarrow> agree_on h h' lo hi \<Longrightarrow>
   list_within h' l lo hi \<and> read_list h' l = read_list h l"
proof -
  assume w: "list_within h l lo hi" and a: "agree_on h h' lo hi"
  have l: "list_at h' l = list_at h l"
    using w a by (simp add: list_within_def agree_on_def)
  have e: "\<And>r. Some r \<in> set (list_at h l) \<Longrightarrow> entry_at h' r = entry_at h r"
    using w a by (simp add: list_within_def agree_on_def)
  have "map (map_option (entry_at h')) (list_at h l) = map (map_option (entry_at h)) (list_at h l)"
  proof (rule map_cong [OF refl])
    fix x assume xin: "x \<in> set (list_at h l)"
    show "map_option (entry_at h') x = map_option (entry_at h) x"
    proof (cases x)
      case None
      then show ?thesis by simp
    next
      case (Some r)
      then show ?thesis using xin e by simp
    qed
  qed
  then show ?thesis using w l by (simp add: read_list_def list_within_def)
qed

lemma lists_within_agree:
  "lists_within h d lo hi \<Longrightarrow> agree_on h h' lo hi \<Longrightarrow>
   lists_within h' d lo hi \<and> read_lists h' d = read_lists h d"
proof -
  assume w: "lists_within h d lo hi" and a: "agree_on h h' lo hi"
  have d: "dict_at h' d = dict_at h d"
    using w a by (simp add: lists_within_def agree_on_def)
  have each: "list_within h' l lo hi \<and> read_list h' l = read_list h l"
    if "l \<in> snd ` set (dict_at h d)" for l
  proof -
    from that w have "list_within h l lo hi" by (auto simp: lists_within_def)
    from list_within_agree [OF this a] show ?thesis .
  qed
  have "map (\<lambda>(k, l). (k, read_list h' l)) (dict_at h d)
      = map (\<lambda>(k, l). (k, read_list h l)) (dict_at h d)"
  proof (rule map_cong [OF refl])
    fix x assume x: "x \<in> set (dict_at h d)"
    then have "snd x \<in> snd ` set (dict_at h d)" by simp
    then show "(case x of (k, l) \<Rightarrow> (k, read_list h' l)) = (case x of (k, l) \<Rightarrow> (k, read_list h l))"
      using each by (cases x) simp
  qed
  then show ?thesis using w d each by (simp add: read_lists_def lists_within_def)
qed

lemma masks_within_agree:
  "masks_within h m lo hi \<Longrightarrow> agree_on h h' lo hi \<Longrightarrow>
   masks_within h' m lo hi \<and> read_masks h' m = read_masks h m"
proof -
  assume w: "masks_within h m lo hi" and a: "agree_on h h' lo hi"
  have d: "dict_at h' m = dict_at h m"
    using w a by (simp add: masks_within_def agree_on_def)
  have each: "lists_within h' l lo hi \<and> read_lists h' l = read_lists h l"
    if "l \<in> snd ` set (dict_at h m)" for l
  proof -
    from that w have "lists_within h l lo hi" by (auto simp: masks_within_def)
    from lists_within_agree [OF this a] show ?thesis .
  qed
  have "map (\<lambda>(k, l). (k, read_lists h' l)) (dict_at h m)
      = map (\<lambda>(k, l). (k, read_lists h l)) (dict_at h m)"
  proof (rule map_cong [OF refl])
    fix x assume x: "x \<in> set (dict_at h m)"
    then have "snd x \<in> snd ` set (dict_at h m)" by simp
    then show "(case x of (k, l) \<Rightarrow> (k, read_lists h' l)) = (case x of (k, l) \<Rightarrow> (k, read_lists h l))"
      using each by (cases x) simp
  qed
  then show ?thesis using w d each by (simp add: read_masks_def masks_within_def)
qed

text \<open>What building new objects leaves in the store.\<close>

lemma new_entry_props:
  assumes "new_entry e h = (a, h')"
  shows "a = next_free h" "next_free h' = Suc (next_free h)" "extends h h'"
    "entry_at h' a = e" "list_at h' = list_at h" "dict_at h' = dict_at h"
  using assms by (auto simp: new_entry_def extends_def agree_on_def)

lemma new_entries_props:
  "new_entries es h = (refs, h') \<Longrightarrow>
   extends h h' \<and> list_at h' = list_at h \<and> dict_at h' = dict_at h
   \<and> (\<forall>r. Some r \<in> set refs \<longrightarrow> next_free h \<le> r \<and> r < next_free h')
   \<and> map (map_option (entry_at h')) refs = es"
proof (induction es h arbitrary: refs h' rule: new_entries.induct)
  case (1 h)
  then show ?case by (simp add: extends_refl)
next
  case (2 es h)
  obtain refs1 h1 where r: "new_entries es h = (refs1, h1)" by (cases "new_entries es h")
  with 2 show ?case by auto
next
  case (3 e es h)
  obtain a h1 where a: "new_entry e h = (a, h1)" by (cases "new_entry e h")
  obtain refs2 h2 where r: "new_entries es h1 = (refs2, h2)" by (cases "new_entries es h1")
  note p1 = new_entry_props [OF a]
  from "3.IH" [OF a [symmetric] r]
  have ih: "extends h1 h2" "list_at h2 = list_at h1" "dict_at h2 = dict_at h1"
    "\<forall>r. Some r \<in> set refs2 \<longrightarrow> next_free h1 \<le> r \<and> r < next_free h2"
    "map (map_option (entry_at h2)) refs2 = es"
    by auto
  have res: "refs = Some a # refs2" "h' = h2"
    using "3.prems" a r by auto
  have keep: "entry_at h2 a = e"
    using ih(1) p1 by (auto simp: extends_def agree_on_def)
  have lt: "next_free h \<le> a \<and> a < next_free h2"
    using ih(1) p1 by (auto simp: extends_def)
  show ?case
    using res ih p1 keep lt extends_trans [OF p1(3) ih(1)]
    by auto
qed

lemma new_list_props:
  assumes "new_list es h = (a, h')"
  shows "extends h h'" "dict_at h' = dict_at h"
    "list_within h' a (next_free h) (next_free h')" "read_list h' a = es"
proof -
  obtain refs h1 where r: "new_entries es h = (refs, h1)" by (cases "new_entries es h")
  from new_entries_props [OF r]
  have p: "extends h h1" "list_at h1 = list_at h" "dict_at h1 = dict_at h"
    "\<forall>r. Some r \<in> set refs \<longrightarrow> next_free h \<le> r \<and> r < next_free h1"
    "map (map_option (entry_at h1)) refs = es"
    by auto
  have a: "a = next_free h1"
    and h': "h' = h1\<lparr>list_at := (list_at h1)(next_free h1 := refs),
                     next_free := Suc (next_free h1)\<rparr>"
    using assms r by (auto simp: new_list_def)
  show "extends h h'"
    using p(1) by (auto simp: h' extends_def agree_on_def)
  show "dict_at h' = dict_at h"
    using p(3) by (simp add: h')
  show "list_within h' a (next_free h) (next_free h')"
    using p(1,4) by (auto simp: h' a list_within_def extends_def)
  show "read_list h' a = es"
    using p(5) by (simp add: h' a read_list_def)
qed

lemma new_lists_props:
  "new_lists v h = (refs, h') \<Longrightarrow>
   extends h h' \<and> dict_at h' = dict_at h
   \<and> (\<forall>l \<in> snd ` set refs. list_within h' l (next_free h) (next_free h'))
   \<and> map (\<lambda>(k, l). (k, read_list h' l)) refs = v"
proof (induction v h arbitrary: refs h' rule: new_lists.induct)
  case (1 h)
  then show ?case by (simp add: extends_refl)
next
  case (2 k es rest h)
  obtain a h1 where a: "new_list es h = (a, h1)" by (cases "new_list es h")
  obtain refs2 h2 where r: "new_lists rest h1 = (refs2, h2)" by (cases "new_lists rest h1")
  note p = new_list_props [OF a]
  from "2.IH" [OF a [symmetric] r]
  have ih: "extends h1 h2" "dict_at h2 = dict_at h1"
    "\<forall>l \<in> snd ` set refs2. list_within h2 l (next_free h1) (next_free h2)"
    "map (\<lambda>(k, l). (k, read_list h2 l)) refs2 = rest"
    by auto
  have res: "refs = (k, a) # refs2" "h' = h2"
    using "2.prems" a r by auto
  have le: "next_free h \<le> next_free h1" "next_free h1 \<le> next_free h2"
    using p(1) ih(1) by (auto simp: extends_def)
  have "agree_on h1 h2 (next_free h) (next_free h1)"
    using ih(1) by (auto simp: extends_def intro: agree_on_sub)
  from list_within_agree [OF p(3) this]
  have keep: "list_within h2 a (next_free h) (next_free h1)" "read_list h2 a = es"
    using p(4) by auto
  have w_a: "list_within h2 a (next_free h) (next_free h2)"
    using keep(1) le by (auto intro: list_within_mono)
  have w_rest: "\<forall>l \<in> snd ` set refs2. list_within h2 l (next_free h) (next_free h2)"
    using ih(3) le by (auto intro: list_within_mono)
  show ?case
    using res ih(2,4) p(2) keep(2) w_a w_rest extends_trans [OF p(1) ih(1)]
    by auto
qed

lemma new_dict_props:
  assumes "new_dict d h = (a, h')"
  shows "a = next_free h" "next_free h' = Suc (next_free h)" "extends h h'"
    "dict_at h' a = d" "entry_at h' = entry_at h" "list_at h' = list_at h"
  using assms by (auto simp: new_dict_def extends_def agree_on_def)

lemma new_doctor_dict_props:
  assumes "new_doctor_dict v h = (d, h')"
  shows "extends h h'" "lists_within h' d (next_free h) (next_free h')" "read_lists h' d = v"
proof -
  obtain refs h1 where r: "new_lists v h = (refs, h1)" by (cases "new_lists v h")
  from new_lists_props [OF r]
  have p: "extends h h1" "dict_at h1 = dict_at h"
    "\<forall>l \<in> snd ` set refs. list_within h1 l (next_free h) (next_free h1)"
    "map (\<lambda>(k, l). (k, read_list h1 l)) refs = v"
    by auto
  have n: "new_dict refs h1 = (d, h')"
    using assms r by (simp add: new_doctor_dict_def)
  note q = new_dict_props [OF n]
  have le: "next_free h \<le> next_free h1"
    using p(1) by (simp add: extends_def)
  show "extends h h'"
    using extends_trans [OF p(1) q(3)] .
  have each: "list_within h' l (next_free h) (next_free h')" if "l \<in> snd ` set refs" for l
  proof -
    from that p(3) have "list_within h1 l (next_free h) (next_free h1)" by auto
    then show ?thesis
      using q(2,6) by (auto simp: list_within_def)
  qed
  show "lists_within h' d (next_free h) (next_free h')"
    using each q(1,2,4) le by (auto simp: lists_within_def)
  have "read_list h' = read_list h1"
    by (rule ext) (simp add: read_list_def q(5) q(6))
  then show "read_lists h' d = v"
    using p(4) q(4) by (simp add: read_lists_def)
qed

lemma new_doctor_dicts_props:
  "new_doctor_dicts v h = (refs, h') \<Longrightarrow>
   extends h h'
   \<and> (\<forall>d \<in> snd ` set refs. lists_within h' d (next_free h) (next_free h'))
   \<and> map (\<lambda>(k, d). (k, read_lists h' d)) refs = v"
proof (induction v h arbitrary: refs h' rule: new_doctor_dicts.induct)
  case (1 h)
  then show ?case by (simp add: extends_refl)
next
  case (2 k v rest h)
  obtain a h1 where a: "new_doctor_dict v h = (a, h1)" by (cases "new_doctor_dict v h")
  obtain refs2 h2 where r: "new_doctor_dicts rest h1 = (refs2, h2)"
    by (cases "new_doctor_dicts rest h1")
  note p = new_doctor_dict_props [OF a]
  from "2.IH" [OF a [symmetric] r]
  have ih: "extends h1 h2"
    "\<forall>d \<in> snd ` set refs2. lists_within h2 d (next_free h1) (next_free h2)"
    "map (\<lambda>(k, d). (k, read_lists h2 d)) refs2 = rest"
    by auto
  have res: "refs = (k, a) # refs2" "h' = h2"
    using "2.prems" a r by auto
  have le: "next_free h \<le> next_free h1" "next_free h1 \<le> next_free h2"
    using p(1) ih(1) by (auto simp: extends_def)
  have "agree_on h1 h2 (next_free h) (next_free h1)"
    using ih(1) by (auto simp: extends_def intro: agree_on_sub)
  from lists_within_agree [OF p(2) this]
  have keep: "lists_within h2 a (next_free h) (next_free h1)" "read_lists h2 a = v"
    using p(3) by auto
  have w_a: "lists_within h2 a (next_free h) (next_free h2)"
    using keep(1) le by (auto intro: lists_within_mono)
  have w_rest: "\<forall>d \<in> snd ` set refs2. lists_within h2 d (next_free h) (next_free h2)"
    using ih(2) le by (auto intro: lists_within_mono)
  show ?case
    using res ih(3) keep(2) w_a w_rest extends_trans [OF p(1) ih(1)]
    by auto
qed

lemma new_masks_dict_props:
  assumes "new_masks_dict v h = (m, h')"
  shows "extends h h'" "masks_within h' m (next_free h) (next_free h')" "read_masks h' m = v"
proof -
  obtain refs h1 where r: "new_doctor_dicts v h = (refs, h1)" by (cases "new_doctor_dicts v h")
  from new_doctor_dicts_props [OF r]
  have p: "extends h h1"
    "\<forall>d \<in> snd ` set refs. lists_within h1 d (next_free h) (next_free h1)"
    "map (\<lambda>(k, d). (k, read_lists h1 d)) refs = v"
    by auto
  have n: "new_dict refs h1 = (m, h')"
    using assms r by (simp add: new_masks_dict_def)
  note q = new_dict_props [OF n]
  have le: "next_free h \<le> next_free h1"
    using p(1) by (simp add: extends_def)
  show "extends h h'"
    using extends_trans [OF p(1) q(3)] .
  have ag: "agree_on h1 h' (next_free h) (next_free h1)"
    using q(3) by (auto simp: extends_def intro: agree_on_sub)
  have each: "lists_within h' d (next_free h) (next_free h') \<and> read_lists h' d = read_lists h1 d"
    if "d \<in> snd ` set refs" for d
  proof -
    from that p(2) have w: "lists_within h1 d (next_free h) (next_free h1)" by auto
    from lists_within_agree [OF w ag] show ?thesis
      using q(2) by (auto intro: lists_within_mono)
  qed
  show "masks_within h' m (next_free h) (next_free h')"
    using each q(1,2,4) le by (auto simp: masks_within_def)
  have "map (\<lambda>(k, d). (k, read_lists h' d)) refs = map (\<lambda>(k, d). (k, read_lists h1 d)) refs"
  proof (rule map_cong [OF refl])
    fix x assume x: "x \<in> set refs"
    then have "snd x \<in> snd ` set refs" by simp
    from each [OF this]
    show "(case x of (k, d) \<Rightarrow> (k, read_lists h' d)) = (case x of (k, d) \<Rightarrow> (k, read_lists h1 d))"
      by (cases x) simp
  qed
  then show "read_masks h' m = v"
    using p(3) q(4) by (simp add: read_masks_def)
qed



lemma extends_grows: "extends h h' \<Longrightarrow> grows h h'"
  by (auto simp: extends_def grows_def agree_on_def)

lemma extends_class_dicts:
  "extends h h' \<Longrightarrow> 2 \<le> next_free h \<Longrightarrow>
   dict_at h' Patient_masks = dict_at h Patient_masks
   \<and> dict_at h' Patient_images = dict_at h Patient_images"
  by (auto simp: extends_def agree_on_def Patient_masks_def Patient_images_def)

lemma set_update_snd: "snd ` set (AList.update k v xs) \<subseteq> insert v (snd ` set xs)"
  by (induction xs) auto

lemma index_frame:
  assumes "\<forall>d \<in> snd ` set (dict_at h Patient_masks). lists_within h d 2 n"
      and "dict_at h' Patient_masks = dict_at h Patient_masks"
      and "agree_on h h' 2 n"
  shows "read_masks h' Patient_masks = read_masks h Patient_masks"
    and "\<forall>d \<in> snd ` set (dict_at h' Patient_masks). lists_within h' d 2 n"
proof -
  have each: "lists_within h' d 2 n \<and> read_lists h' d = read_lists h d"
    if "d \<in> snd ` set (dict_at h Patient_masks)" for d
    using that assms(1) lists_within_agree [OF _ assms(3)] by blast
  show "\<forall>d \<in> snd ` set (dict_at h' Patient_masks). lists_within h' d 2 n"
    using each assms(2) by simp
  have "map (\<lambda>(k, d). (k, read_lists h' d)) (dict_at h Patient_masks)
      = map (\<lambda>(k, d). (k, read_lists h d)) (dict_at h Patient_masks)"
  proof (rule map_cong [OF refl])
    fix x assume x: "x \<in> set (dict_at h Patient_masks)"
    then have "snd x \<in> snd ` set (dict_at h Patient_masks)" by simp
    from each [OF this]
    show "(case x of (k, d) \<Rightarrow> (k, read_lists h' d)) = (case x of (k, d) \<Rightarrow> (k, read_lists h d))"
      by (cases x) simp
  qed
  then show "read_masks h' Patient_masks = read_masks h Patient_masks"
    using assms(2) by (simp add: read_masks_def)
qed

text \<open>One turn of the loop of \<open>fetch_masks\<close>.\<close>

lemma store_mask_step:
  assumes a: "new_doctor_dict v h = (a, h1)"
      and u: "u = h1\<lparr>dict_at := (dict_at h1)
                 (Patient_masks := AList.update k a (dict_at h1 Patient_masks))\<rparr>"
      and n: "2 \<le> next_free h"
  shows "grows h u" "2 \<le> next_free u"
    "dict_at u Patient_images = dict_at h Patient_images"
    "dict_at u Patient_masks = AList.update k a (dict_at h Patient_masks)"
    "lists_within u a 2 (next_free u)" "read_lists u a = v"
    "masks_ok h \<Longrightarrow> masks_ok u"
proof -
  note p = new_doctor_dict_props [OF a]
  have le: "next_free h \<le> next_free h1"
    using p(1) by (simp add: extends_def)
  have ag1: "agree_on h1 u 2 m" for m
    by (simp add: u agree_on_def Patient_masks_def)
  have nf: "next_free u = next_free h1"
    by (simp add: u)
  show "grows h u"
    using extends_grows [OF p(1)] ag1 [of "next_free h"] nf
    by (auto simp: grows_def agree_on_def)
  show "2 \<le> next_free u"
    using n le nf by simp
  show "dict_at u Patient_images = dict_at h Patient_images"
    using extends_class_dicts [OF p(1) n]
    by (simp add: u Patient_masks_def Patient_images_def)
  show pm: "dict_at u Patient_masks = AList.update k a (dict_at h Patient_masks)"
    using extends_class_dicts [OF p(1) n] by (simp add: u)
  have w1: "lists_within h1 a 2 (next_free h1)"
    using p(2) n by (auto intro: lists_within_mono)
  from lists_within_agree [OF w1 ag1]
  show wa: "lists_within u a 2 (next_free u)" and "read_lists u a = v"
    using p(3) nf by auto
  show "masks_ok u" if ok: "masks_ok h"
  proof -
    have old: "lists_within u d 2 (next_free u)"
      if "d \<in> snd ` set (dict_at h Patient_masks)" for d
    proof -
      from that ok have "lists_within h d 2 (next_free h)"
        by (auto simp: masks_ok_def)
      moreover have "agree_on h u 2 (next_free h)"
        using \<open>grows h u\<close> by (simp add: grows_def)
      ultimately have "lists_within u d 2 (next_free h)"
        using lists_within_agree by blast
      then show ?thesis
        using le nf by (auto intro: lists_within_mono)
    qed
    have "lists_within u d 2 (next_free u)"
      if "d \<in> snd ` set (dict_at u Patient_masks)" for d
    proof -
      from that pm set_update_snd [of k a "dict_at h Patient_masks"]
      have "d = a \<or> d \<in> snd ` set (dict_at h Patient_masks)" by auto
      then show ?thesis using wa old by auto
    qed
    then show ?thesis
      using \<open>2 \<le> next_free u\<close> by (simp add: masks_ok_def)
  qed
qed

lemma fetch_masks_loop_ok:
  "masks_ok h \<Longrightarrow> fetch_masks_loop fs self kinds ext kw h = (res, h') \<Longrightarrow> masks_ok h'"
proof (induction kinds arbitrary: h)
  case Nil
  then show ?case by simp
next
  case (Cons k kinds)
  show ?case
  proof (cases "fetch_single_mask fs self k ext (warnings kw) (exceptions kw)
                  (full_match kw) (try_full_match kw)")
    case (Inl e)
    with Cons.prems show ?thesis by simp
  next
    case (Inr v)
    obtain a h1 where a: "new_doctor_dict v h = (a, h1)" by (cases "new_doctor_dict v h")
    define u where "u = h1\<lparr>dict_at := (dict_at h1)
                 (Patient_masks := AList.update k a (dict_at h1 Patient_masks))\<rparr>"
    have n: "2 \<le> next_free h"
      using Cons.prems(1) by (simp add: masks_ok_def)
    have "masks_ok u"
      using store_mask_step(7) [OF a u_def n] Cons.prems(1) .
    moreover have "fetch_masks_loop fs self kinds ext kw u = (res, h')"
      using Cons.prems(2) Inr a by (simp add: u_def)
    ultimately show ?thesis
      using Cons.IH by blast
  qed
qed

lemma under_within:
  assumes "masks_within h r lo hi"
  shows "\<forall>a \<in> dicts_under h r. lo \<le> a" "\<forall>a \<in> lists_under h r. lo \<le> a"
    "\<forall>a \<in> entries_under h r. lo \<le> a"
  using assms
  by (auto simp: masks_within_def lists_within_def list_within_def dicts_under_def
      lists_under_def entries_under_def)

lemma fetch_masks_copy:
  assumes ok: "masks_ok h"
      and f: "fetch_masks fs self kinds ext kw h = (Inr r, h')"
  shows "read_masks h' r = read_masks h' Patient_masks"
    and "\<forall>h''. changed_only_under h' h'' r
           \<longrightarrow> read_masks h'' Patient_masks = read_masks h' Patient_masks"
proof -
  obtain res h1 where l: "fetch_masks_loop fs self kinds ext kw h = (res, h1)"
    by (cases "fetch_masks_loop fs self kinds ext kw h")
  from f l have c: "deepcopy_masks h1 Patient_masks = (r, h')"
    by (cases res; cases "deepcopy_masks h1 Patient_masks") (auto simp: fetch_masks_def)
  have ok1: "masks_ok h1"
    using fetch_masks_loop_ok [OF ok l] .
  then have n: "2 \<le> next_free h1"
    and w1: "\<forall>d \<in> snd ` set (dict_at h1 Patient_masks). lists_within h1 d 2 (next_free h1)"
    by (auto simp: masks_ok_def)
  note p = new_masks_dict_props [OF c [unfolded deepcopy_masks_def]]
  have d: "dict_at h' Patient_masks = dict_at h1 Patient_masks"
    using extends_class_dicts [OF p(1) n] by simp
  have ag: "agree_on h1 h' 2 (next_free h1)"
    using p(1) by (auto simp: extends_def intro: agree_on_sub)
  note fr = index_frame [OF w1 d ag]
  show "read_masks h' r = read_masks h' Patient_masks"
    using p(3) fr(1) by simp
  show "\<forall>h''. changed_only_under h' h'' r
           \<longrightarrow> read_masks h'' Patient_masks = read_masks h' Patient_masks"
  proof (intro allI impI)
    fix h'' assume ch: "changed_only_under h' h'' r"
    note u = under_within [OF p(2)]
    have le: "next_free h1 \<le> next_free h'"
      using p(1) by (simp add: extends_def)
    have out: "a \<notin> dicts_under h' r \<and> a \<notin> lists_under h' r \<and> a \<notin> entries_under h' r"
      if "a < next_free h1" for a
      using that u by (meson not_le)
    have same: "dict_at h'' a = dict_at h' a \<and> list_at h'' a = list_at h' a
        \<and> entry_at h'' a = entry_at h' a" if "a < next_free h1" for a
      using out [OF that] that le ch by (auto simp: changed_only_under_def)
    have d2: "dict_at h'' Patient_masks = dict_at h' Patient_masks"
      using same [of Patient_masks] n by (simp add: Patient_masks_def)
    have ag2: "agree_on h' h'' 2 (next_free h1)"
      using same by (simp add: agree_on_def)
    from index_frame(1) [OF fr(2) d2 ag2]
    show "read_masks h'' Patient_masks = read_masks h' Patient_masks" .
  qed
qed

lemma fetch_series_alias:
  assumes "fetch_series fs self kinds ext kw h = (Inr r, h')"
  shows "r = Patient_images"
    and "read_lists (h'\<lparr>dict_at := (dict_at h')(r := d)\<rparr>) Patient_images
           = map (\<lambda>(k, l). (k, read_list h' l)) d"
proof -
  show r: "r = Patient_images"
    using assms
    by (cases "fetch_series_loop fs self kinds ext kw h")
       (auto simp: fetch_series_def split: sum.splits)
  show "read_lists (h'\<lparr>dict_at := (dict_at h')(r := d)\<rparr>) Patient_images
           = map (\<lambda>(k, l). (k, read_list h' l)) d"
    by (simp add: r read_lists_def read_list_def)
qed








section \<open>Claims about the indices of a patient\<close>

lemma changed_only_under_root:
  "changed_only_under h (h\<lparr>dict_at := (dict_at h)(r := d)\<rparr>) r"
  by (simp add: changed_only_under_def dicts_under_def)

text \<open>
  C10. \<open>fetch_masks\<close> returns a deep copy of the mask index: in the store it leaves, the
  object returned reads as the index does, and whatever is done to the objects under it
  (or to objects built later) leaves the index of the class as it was. \<open>fetch_series\<close>
  returns the dict of the class itself: new contents stored into the object returned
  are the contents of the series index, which the queries read.
\<close>

theorem fetch_masks_returns_copy_fetch_series_returns_index:
  assumes "masks_ok h"
  shows "(\<forall>r h'. fetch_masks fs self series_list file_extension kw h = (Inr r, h') \<longrightarrow>
            read_masks h' r = read_masks h' Patient_masks
            \<and> (\<forall>h''. changed_only_under h' h'' r
                  \<longrightarrow> read_masks h'' Patient_masks = read_masks h' Patient_masks))
       \<and> (\<forall>r h'. fetch_series fs self series_list file_extension kw h = (Inr r, h') \<longrightarrow>
            r = Patient_images
            \<and> (\<forall>d. read_lists (h'\<lparr>dict_at := (dict_at h')(r := d)\<rparr>) Patient_images
                    = map (\<lambda>(k, l). (k, read_list h' l)) d))"
proof (intro conjI allI impI)
  fix r h'
  assume f: "fetch_masks fs self series_list file_extension kw h = (Inr r, h')"
  show "read_masks h' r = read_masks h' Patient_masks"
    using fetch_masks_copy(1) [OF assms f] .
  fix h''
  assume "changed_only_under h' h'' r"
  then show "read_masks h'' Patient_masks = read_masks h' Patient_masks"
    using fetch_masks_copy(2) [OF assms f] by blast
next
  fix r h'
  assume f: "fetch_series fs self series_list file_extension kw h = (Inr r, h')"
  show "r = Patient_images"
    using fetch_series_alias(1) [OF f] .
  fix d
  show "read_lists (h'\<lparr>dict_at := (dict_at h')(r := d)\<rparr>) Patient_images
          = map (\<lambda>(k, l). (k, read_list h' l)) d"
    using fetch_series_alias(2) [OF f] .
qed

theorem fetch_masks_copy_witness:
  "masks_ok module_loaded
   \<and> fst (fetch_masks fs_scenario p1 [''adc''] ''.nii.gz'' mask_config module_loaded) = Inr 8
   \<and> read_masks
        ((snd (fetch_masks fs_scenario p1 [''adc''] ''.nii.gz'' mask_config module_loaded))
           \<lparr>dict_at :=
              (dict_at (snd (fetch_masks fs_scenario p1 [''adc''] ''.nii.gz'' mask_config
                               module_loaded)))(8 := [])\<rparr>)
        Patient_masks
       = [(''adc'', [(''doctorA'',
            [Some (Mask ''adc'' [''/data/p1/MASKS/doctorA/adc.nii.gz''] (Some ''doctorA''))])])]
   \<and> fst (fetch_series fs_scenario p1 [''adc''] ''.nii.gz'' series_config module_loaded)
       = Inr Patient_images
   \<and> get_series_types p1
        (snd (fetch_series fs_scenario p1 [''adc''] ''.nii.gz'' series_config module_loaded))
       = Inr {''adc''}
   \<and> get_series_types p1
        ((snd (fetch_series fs_scenario p1 [''adc''] ''.nii.gz'' series_config module_loaded))
           \<lparr>dict_at :=
              (dict_at (snd (fetch_series fs_scenario p1 [''adc''] ''.nii.gz'' series_config
                               module_loaded)))(Patient_images := [])\<rparr>)
       = Inr {}"
proof -
  define hm where "hm = snd (fetch_masks fs_scenario p1 [''adc''] ''.nii.gz'' mask_config module_loaded)"
  define hs where "hs = snd (fetch_series fs_scenario p1 [''adc''] ''.nii.gz'' series_config module_loaded)"
  have ok: "masks_ok module_loaded"
    by (simp add: masks_ok_def module_loaded_def)
  have r: "fst (fetch_masks fs_scenario p1 [''adc''] ''.nii.gz'' mask_config module_loaded) = Inr 8"
    by (simp add: heap_eval fs_scenario_def p1_def fetch_eval str_eval)
  then have f: "fetch_masks fs_scenario p1 [''adc''] ''.nii.gz'' mask_config module_loaded = (Inr 8, hm)"
    by (simp add: hm_def prod_eq_iff)
  have v: "read_masks hm Patient_masks
       = [(''adc'', [(''doctorA'',
            [Some (Mask ''adc'' [''/data/p1/MASKS/doctorA/adc.nii.gz''] (Some ''doctorA''))])])]"
    unfolding hm_def
    by (simp add: heap_eval fs_scenario_def p1_def fetch_eval str_eval)
  have s: "fst (fetch_series fs_scenario p1 [''adc''] ''.nii.gz'' series_config module_loaded)
       = Inr Patient_images"
    by (simp add: heap_eval fs_scenario_def p1_def fetch_eval str_eval)
  then have g: "fetch_series fs_scenario p1 [''adc''] ''.nii.gz'' series_config module_loaded
       = (Inr Patient_images, hs)"
    by (simp add: hs_def prod_eq_iff)
  have t: "get_series_types p1 hs = Inr {''adc''}"
    unfolding hs_def
    by (simp add: count_eval heap_eval fs_scenario_def p1_def fetch_eval str_eval)
  note inst = fetch_masks_returns_copy_fetch_series_returns_index
    [OF ok, of fs_scenario p1 "[''adc'']" "''.nii.gz''"]
  from inst [of mask_config] f changed_only_under_root [of hm 8 "[]"]
  have m: "read_masks (hm\<lparr>dict_at := (dict_at hm)(8 := [])\<rparr>) Patient_masks
      = read_masks hm Patient_masks"
    by blast
  from inst [of series_config] g
  have "read_lists (hs\<lparr>dict_at := (dict_at hs)(Patient_images := [])\<rparr>) Patient_images = []"
    by auto
  then have c: "get_series_types p1 (hs\<lparr>dict_at := (dict_at hs)(Patient_images := [])\<rparr>) = Inr {}"
    by (simp add: get_series_types_def)
  show ?thesis
    using ok r m v s t c unfolding hm_def hs_def by simp
qed


text \<open>
  C9. The indices of two patients of a catalogue are said to be independent. \<open>images\<close>
  and \<open>masks\<close> are attributes of the class and not of its instances, so all patients
  share one index; the comment in the queries notes that the patient does not keep its
  state. After discovery of \<open>adc\<close> for patient \<open>p1\<close>, \<open>p1\<close> has the series type \<open>adc\<close>;
  discovery of \<open>adc\<close> for patient \<open>p2\<close>, who has no such folder, leaves \<open>p1\<close> with no
  series type.
\<close>

theorem discovery_of_one_patient_changes_another:
  "DatasetDiscover_patients (fetch_patients fs_two_patients ''/data'' [''p1'', ''p2''] module_loaded)
     = [(''p1'', p1), (''p2'', p2)]
   \<and> get_series_types p1
        (snd (fetch_series fs_two_patients p1 [''adc''] ''.nii.gz'' series_config
                (fetch_patients fs_two_patients ''/data'' [''p1'', ''p2''] module_loaded)))
       = Inr {''adc''}
   \<and> get_series_types p1
        (snd (fetch_series fs_two_patients p2 [''adc''] ''.nii.gz'' series_config
                (snd (fetch_series fs_two_patients p1 [''adc''] ''.nii.gz'' series_config
                        (fetch_patients fs_two_patients ''/data'' [''p1'', ''p2''] module_loaded)))))
       = Inr {}"
  by (simp add: count_eval heap_eval fs_two_patients_def p1_def p2_def fetch_eval str_eval)

text \<open>
  C7, as stated: a dimension other than the two allowed ones always fails with the
  configuration error, whatever the state of the dataset. \<open>count_masks_per\<close> runs
  \<open>fetch_all\<close> first: for a patient without masks folder the call fails with
  \<open>IndexError\<close>, before \<open>count_type\<close> is looked at.
\<close>

theorem count_masks_per_invalid_counterexample:
  "lower ''invalid'' \<noteq> ''series_type'' \<and> lower ''invalid'' \<noteq> ''doctor''
   \<and> fst (count_masks_per fs_no_masks p1 ''invalid'' module_loaded) = Inl IndexError
   \<and> fst (count_masks_per fs_no_masks p1 ''invalid'' module_loaded)
       \<noteq> Inl (Exception ''Invalid count_type'')"
  by (simp add: count_eval heap_eval fs_no_masks_def p1_def fetch_eval str_eval)

text \<open>
  C7, amended: with a dimension that is neither \<open>series_type\<close> nor \<open>doctor\<close> in lower
  case, \<open>count_masks_per\<close> never returns a count. It raises the configuration error
  whenever the discovery it runs first returns, and the error of that discovery
  otherwise.
\<close>

theorem count_masks_per_invalid:
  assumes "lower count_type \<noteq> ''series_type''" and "lower count_type \<noteq> ''doctor''"
  shows "(\<forall>count. fst (count_masks_per fs self count_type h) \<noteq> Inr count)
    \<and> (\<forall>data h1. fetch_all fs self series_to_fetch mask_config series_config h = (Inr data, h1)
          \<longrightarrow> count_masks_per fs self count_type h
                = (Inl (Exception ''Invalid count_type''), h1))
    \<and> (\<forall>e h1. fetch_all fs self series_to_fetch mask_config series_config h = (Inl e, h1)
          \<longrightarrow> count_masks_per fs self count_type h = (Inl e, h1))"
  using assms
  by (cases "fetch_all fs self series_to_fetch mask_config series_config h")
     (auto simp: count_masks_per_def count_masks_def split: sum.splits)

theorem count_masks_per_invalid_witness:
  "lower ''invalid'' \<noteq> ''series_type'' \<and> lower ''invalid'' \<noteq> ''doctor''
   \<and> fst (fetch_all fs_scenario p1 series_to_fetch mask_config series_config module_loaded)
       = Inr (12, Patient_images)
   \<and> fst (count_masks_per fs_scenario p1 ''invalid'' module_loaded)
       = Inl (Exception ''Invalid count_type'')"
proof -
  have h1: "lower ''invalid'' \<noteq> ''series_type''" and h2: "lower ''invalid'' \<noteq> ''doctor''"
    by (simp_all add: str_eval)
  have f: "fst (fetch_all fs_scenario p1 series_to_fetch mask_config series_config module_loaded)
       = Inr (12, Patient_images)"
    by (simp add: heap_eval fs_scenario_def p1_def fetch_eval str_eval)
  then have "fetch_all fs_scenario p1 series_to_fetch mask_config series_config module_loaded
       = (Inr (12, Patient_images),
          snd (fetch_all fs_scenario p1 series_to_fetch mask_config series_config module_loaded))"
    by (simp add: prod_eq_iff)
  with count_masks_per_invalid [OF h1 h2, of fs_scenario p1 module_loaded]
  have "fst (count_masks_per fs_scenario p1 ''invalid'' module_loaded)
       = Inl (Exception ''Invalid count_type'')"
    by simp
  with h1 h2 f show ?thesis by simp
qed




end
